theory Spec2Isabelle
  imports Complex_Main "HOL-Library.Word"
begin

unbundle bit_operations_syntax

section \<open>FT260 WebHID to I2C bridge: the model of app.js\<close>

text \<open>
  The program keeps two globals, \<open>dev\<close> (the opened HID device or null) and
  \<open>pendingRead\<close> (the one read that waits for input reports, or null). Every function
  of the source becomes a function on a record of these globals. What the program
  does to the outside world is recorded in the same record, in the order it happens:
  the reports handed to \<open>dev.sendReport\<close>, the promises settled, the timers that are
  set and not yet cleared, and the lines written to the log.

  JavaScript numbers are modelled as \<open>int\<close> (the program only uses integers), the
  elements of a \<open>Uint8Array\<close> as \<open>8 word\<close>. An \<open>async\<close> function runs without
  interruption up to its next \<open>await\<close>; a function with code after an \<open>await\<close> is
  therefore modelled in pieces, one per uninterrupted stretch.
\<close>

subsection \<open>Constants\<close>

type_synonym byte = "8 word"

definition FT260_I2C_READ_REQ :: int where "FT260_I2C_READ_REQ = 0xC2"
definition FT260_I2C_REPORT_MIN :: int where "FT260_I2C_REPORT_MIN = 0xD0"
definition FT260_I2C_STATUS :: int where "FT260_I2C_STATUS = 0xC0"

definition FT260_FLAG_NONE :: int where "FT260_FLAG_NONE = 0x00"
definition FT260_FLAG_START :: int where "FT260_FLAG_START = 0x02"
definition FT260_FLAG_START_STOP :: int where "FT260_FLAG_START_STOP = 0x06"
definition FT260_FLAG_START_STOP_REPEATED :: int where "FT260_FLAG_START_STOP_REPEATED = 0x07"

definition FT260_WR_DATA_MAX :: int where "FT260_WR_DATA_MAX = 60"
definition FT260_RD_DATA_MAX :: int where "FT260_RD_DATA_MAX = 60"

subsection \<open>Typed arrays\<close>

text \<open>Storing a number into a \<open>Uint8Array\<close> keeps its low eight bits.\<close>

definition u8 :: "int \<Rightarrow> byte" where
  "u8 n = word_of_int n"

text \<open>
  \<open>a[i]\<close> on a \<open>Uint8Array\<close> is \<open>undefined\<close> past the end. The program reads such
  an element only under \<open>?? 0\<close> or under a bit operation, and both turn \<open>undefined\<close>
  into 0.
\<close>

definition at0 :: "byte list \<Rightarrow> nat \<Rightarrow> int" where
  "at0 a i = (if i < length a then uint (a ! i) else 0)"

text \<open>
  \<open>a.slice(0, e)\<close>: a negative \<open>e\<close> counts from the end of the array, and the
  result is cut to the array.
\<close>

definition slice0 :: "byte list \<Rightarrow> int \<Rightarrow> byte list" where
  "slice0 a e = take (nat (if e < 0 then int (length a) + e else e)) a"

subsection \<open>Report id of a write\<close>

text \<open>\<open>Math.floor((payloadLen - 1) / 4)\<close>: \<open>div\<close> on \<open>int\<close> rounds down as well.\<close>

definition i2cDataReportId :: "int \<Rightarrow> int" where
  "i2cDataReportId payloadLen = FT260_I2C_REPORT_MIN + (payloadLen - 1) div 4"

subsection \<open>The globals and the outside world\<close>

datatype js_error =
    NotConnectedError      \<comment> \<open>\<open>Not connected.\<close>\<close>
  | WriteLengthError       \<comment> \<open>\<open>Write > 60 bytes not supported in this demo.\<close>\<close>
  | ReadLengthError        \<comment> \<open>\<open>Read length must be 0-60 in this demo.\<close>\<close>
  | ConflictError          \<comment> \<open>\<open>Another read is already pending.\<close>\<close>
  | TimeoutError           \<comment> \<open>\<open>Read timeout waiting for input report(s).\<close>\<close>
  | DisconnectedError      \<comment> \<open>\<open>Disconnected.\<close>\<close>
  | ChannelError           \<comment> \<open>the device rejects a report\<close>
  | DataViewRangeError     \<comment> \<open>\<open>getUint8\<close> outside the view\<close>
  | NullDeviceError        \<comment> \<open>a method call on \<open>dev\<close> when it is null\<close>

text \<open>What an \<open>async\<close> call gives its caller; \<open>Suspended\<close>: the promise is never settled.\<close>

datatype 'a completion = Returned 'a | Threw js_error | Suspended

datatype outcome = Fulfilled "byte list" | Rejected js_error

text \<open>
  The opened HID device is outside the program. It is modelled by what it answers:
  whether it takes an output report, and the feature report it returns.
\<close>

record device =
  sendReport :: "int \<Rightarrow> byte list \<Rightarrow> bool"
  receiveFeatureReport :: "int \<Rightarrow> byte list option"

text \<open>
  \<open>pendingRead = { want, buf, resolve, reject, timeoutId }\<close>. \<open>resolve\<close> and
  \<open>reject\<close> are the two handles of one promise, named here by a number.
\<close>

record pending =
  want :: int
  buf :: "byte list"
  promise :: nat
  timeoutId :: nat

datatype log_entry =
    LogIn int int "byte list"
  | LogOutWrite int int int int "byte list"
  | LogOutReadReq int int int int
  | LogStatusBytes "byte list"
  | LogStatus int int bool bool
  | LogNoDevice
  | LogDisconnected

record state =
  dev :: "device option"
  pendingRead :: "pending option"
  nextId :: nat                          \<comment> \<open>the next fresh promise and timer number\<close>
  timers :: "nat list"                   \<comment> \<open>timers set and neither cleared nor fired\<close>
  settled :: "(nat \<times> outcome) list"      \<comment> \<open>calls of \<open>resolve\<close> and \<open>reject\<close>, in order\<close>
  sent :: "(int \<times> byte list) list"      \<comment> \<open>calls of \<open>dev.sendReport\<close>, in order\<close>
  logs :: "log_entry list"

definition log_line :: "log_entry \<Rightarrow> state \<Rightarrow> state" where
  "log_line e s = s\<lparr>logs := logs s @ [e]\<rparr>"

definition clearTimeout :: "nat \<Rightarrow> state \<Rightarrow> state" where
  "clearTimeout t s = s\<lparr>timers := removeAll t (timers s)\<rparr>"

definition settle :: "nat \<Rightarrow> outcome \<Rightarrow> state \<Rightarrow> state" where
  "settle p r s = s\<lparr>settled := settled s @ [(p, r)]\<rparr>"

subsection \<open>The pending read\<close>

text \<open>\<open>clearPendingRead\<close>, app.js lines 58 to 64.\<close>

definition clearPendingRead :: "js_error option \<Rightarrow> state \<Rightarrow> state" where
  "clearPendingRead err s =
     (case pendingRead s of
        None \<Rightarrow> s
      | Some pr \<Rightarrow>
          let s1 = clearTimeout (timeoutId pr) (s\<lparr>pendingRead := None\<rparr>)
          in (case err of None \<Rightarrow> s1 | Some e \<Rightarrow> settle (promise pr) (Rejected e) s1))"

text \<open>
  \<open>onInputReport\<close>, app.js lines 67 to 94. First the length prefix and the bytes
  after it, cut to what the report holds (lines 73 and 74); \<open>getUint8(0)\<close> throws on
  a report without bytes.
\<close>

definition chunk_of :: "byte list \<Rightarrow> byte list" where
  "chunk_of dv = take (min (unat (hd dv)) (length dv - 1)) (tl dv)"

definition onInputReport :: "int \<Rightarrow> byte list \<Rightarrow> state \<Rightarrow> js_error + state" where
  "onInputReport reportId dv s =
     (if dv = [] then Inl DataViewRangeError
      else
        let len = uint (hd dv);
            chunk = chunk_of dv;
            s1 = log_line (LogIn reportId len chunk) s
        in (case pendingRead s1 of
              None \<Rightarrow> Inr s1
            | Some pr \<Rightarrow>
                let remaining = want pr - int (length (buf pr));
                    take' = slice0 chunk (min remaining (int (length chunk)));
                    merged = buf pr @ take';
                    pr1 = pr\<lparr>buf := merged\<rparr>
                in if int (length (buf pr1)) \<ge> want pr1
                   then Inr (settle (promise pr1) (Fulfilled (slice0 (buf pr1) (want pr1)))
                           (clearTimeout (timeoutId pr1) (s1\<lparr>pendingRead := None\<rparr>)))
                   else Inr (s1\<lparr>pendingRead := Some pr1\<rparr>)))"

text \<open>
  The callback of the timer that \<open>i2cRead\<close> sets (lines 263 to 265); a cleared timer
  never fires.
\<close>

definition timerFired :: "nat \<Rightarrow> state \<Rightarrow> state" where
  "timerFired t s =
     (if t \<in> set (timers s)
      then clearPendingRead (Some TimeoutError) (s\<lparr>timers := removeAll t (timers s)\<rparr>)
      else s)"

text \<open>
  \<open>disconnectFT260\<close>, lines 145 to 152: what it does to the globals once the
  device is closed.
\<close>

definition disconnectFT260 :: "state \<Rightarrow> state" where
  "disconnectFT260 s =
     (case dev s of
        None \<Rightarrow> s
      | Some d \<Rightarrow> log_line LogDisconnected (clearPendingRead (Some DisconnectedError) (s\<lparr>dev := None\<rparr>)))"

subsection \<open>Write and read\<close>

text \<open>
  \<open>i2cWrite\<close>, lines 230 to 246. Nothing follows its one \<open>await\<close>, so the call is
  one stretch: the state after the report has been handed to the device, and what the
  awaited send gives.
\<close>

definition write_payload :: "int \<Rightarrow> byte list \<Rightarrow> int \<Rightarrow> byte list" where
  "write_payload addr7 bytes flag =
     [u8 (addr7 AND 0x7F), u8 (flag AND 0xFF), u8 (int (length bytes) AND 0xFF)] @ bytes"

definition i2cWrite :: "int \<Rightarrow> byte list \<Rightarrow> int \<Rightarrow> state \<Rightarrow> state \<times> unit completion" where
  "i2cWrite addr7 bytes flag s =
     (case dev s of
        None \<Rightarrow> (s, Threw NotConnectedError)
      | Some d \<Rightarrow>
          if int (length bytes) > FT260_WR_DATA_MAX then (s, Threw WriteLengthError)
          else
            let reportId = i2cDataReportId (int (length bytes));
                payload = write_payload addr7 bytes flag;
                s1 = log_line (LogOutWrite reportId addr7 flag (int (length bytes)) bytes) s;
                s2 = s1\<lparr>sent := sent s1 @ [(reportId, payload)]\<rparr>
            in (s2, if sendReport d reportId payload then Returned () else Threw ChannelError))"

definition read_request :: "int \<Rightarrow> int \<Rightarrow> int \<Rightarrow> byte list" where
  "read_request addr7 length' flag =
     [u8 (addr7 AND 0x7F), u8 (flag AND 0xFF), u8 (length' AND 0xFF),
      u8 (drop_bit 8 length' AND 0xFF)]"

text \<open>
  \<open>i2cRead\<close> up to its first \<open>await\<close>, lines 249 to 260: the three checks, the log
  line and the call of \<open>dev.sendReport\<close>. The second component is what the awaited
  send gives.
\<close>

definition i2cRead_request :: "int \<Rightarrow> int \<Rightarrow> int \<Rightarrow> state \<Rightarrow> state \<times> unit completion" where
  "i2cRead_request addr7 length' flag s =
     (case dev s of
        None \<Rightarrow> (s, Threw NotConnectedError)
      | Some d \<Rightarrow>
          if length' < 0 \<or> length' > FT260_RD_DATA_MAX then (s, Threw ReadLengthError)
          else if pendingRead s \<noteq> None then (s, Threw ConflictError)
          else
            let req = read_request addr7 length' flag;
                s1 = log_line (LogOutReadReq FT260_I2C_READ_REQ addr7 flag length') s;
                s2 = s1\<lparr>sent := sent s1 @ [(FT260_I2C_READ_REQ, req)]\<rparr>
            in (s2, if sendReport d FT260_I2C_READ_REQ req then Returned () else Threw ChannelError))"

text \<open>
  \<open>i2cRead\<close> after the send has come back, lines 262 to 268: the body of
  \<open>new Promise\<close>, which sets the timer and then stores the pending read.
\<close>

definition i2cRead_arm :: "int \<Rightarrow> state \<Rightarrow> state" where
  "i2cRead_arm length' s =
     (let n = nextId s;
          s1 = s\<lparr>nextId := Suc n, timers := timers s @ [n]\<rparr>
      in s1\<lparr>pendingRead := Some \<lparr>want = length', buf = [], promise = n, timeoutId = n\<rparr>\<rparr>)"

text \<open>Input reports arrive one after the other; a handler that throws changes nothing.\<close>

fun deliver :: "(int \<times> byte list) list \<Rightarrow> state \<Rightarrow> state" where
  "deliver [] s = s"
| "deliver ((reportId, dv) # rs) s =
     deliver rs (case onInputReport reportId dv s of Inl e \<Rightarrow> s | Inr s1 \<Rightarrow> s1)"

text \<open>
  A whole call of \<open>i2cRead\<close> when nothing else runs in between: the request, the
  arming, the input reports \<open>inbound\<close> that arrive while the caller waits, and the
  timer, which fires after them unless it was cleared. The caller gets the first
  settlement of its promise.
\<close>

definition i2cRead ::
  "int \<Rightarrow> int \<Rightarrow> int \<Rightarrow> (int \<times> byte list) list \<Rightarrow> state \<Rightarrow> state \<times> byte list completion" where
  "i2cRead addr7 length' flag inbound s =
     (case i2cRead_request addr7 length' flag s of
        (s1, Threw e) \<Rightarrow> (s1, Threw e)
      | (s1, Suspended) \<Rightarrow> (s1, Suspended)
      | (s1, Returned u) \<Rightarrow>
          let p = nextId s1;
              s2 = timerFired p (deliver inbound (i2cRead_arm length' s1))
          in (s2, case map_of (settled s2) p of
                    None \<Rightarrow> Suspended
                  | Some (Fulfilled data) \<Rightarrow> Returned data
                  | Some (Rejected e) \<Rightarrow> Threw e))"

subsection \<open>Bus status\<close>

text \<open>\<open>parseI2cStatus\<close>, lines 196 to 212, and \<open>getI2cStatus\<close>, lines 188 to 194.\<close>

record i2c_status =
  rawStatus :: int
  speedKhz :: int
  controllerBusy :: bool
  error :: bool
  addrNack :: bool
  dataNack :: bool
  arbLost :: bool
  idle :: bool
  busBusy :: bool

definition parseI2cStatus :: "byte list \<Rightarrow> i2c_status" where
  "parseI2cStatus bytes =
     (let status = at0 bytes 1;
          speed = push_bit 8 (at0 bytes 3) OR at0 bytes 2
      in \<lparr>rawStatus = status,
          speedKhz = speed,
          controllerBusy = (status AND push_bit 0 1 \<noteq> 0),
          error = (status AND push_bit 1 1 \<noteq> 0),
          addrNack = (status AND push_bit 2 1 \<noteq> 0),
          dataNack = (status AND push_bit 3 1 \<noteq> 0),
          arbLost = (status AND push_bit 4 1 \<noteq> 0),
          idle = (status AND push_bit 5 1 \<noteq> 0),
          busBusy = (status AND push_bit 6 1 \<noteq> 0)\<rparr>)"

definition getI2cStatus :: "state \<Rightarrow> state \<times> byte list completion" where
  "getI2cStatus s =
     (case dev s of
        None \<Rightarrow> (s, Threw NullDeviceError)
      | Some d \<Rightarrow>
          (case receiveFeatureReport d FT260_I2C_STATUS of
             None \<Rightarrow> (s, Threw ChannelError)
           | Some data \<Rightarrow> (log_line (LogStatusBytes data) s, Returned data)))"

subsection \<open>PMBus read word\<close>

text \<open>
  \<open>pmbusReadWord\<close>, lines 272 to 291, when nothing else runs in between;
  \<open>inbound\<close> are the input reports that arrive while the read waits.
\<close>

record read_word =
  raw :: "byte list"
  word :: int

definition pmbusReadWord ::
  "int \<Rightarrow> int \<Rightarrow> (int \<times> byte list) list \<Rightarrow> state \<Rightarrow> state \<times> read_word completion" where
  "pmbusReadWord addr7 command inbound s =
     (case i2cWrite addr7 [u8 (command AND 0xFF)] FT260_FLAG_START s of
        (s1, Threw e) \<Rightarrow> (s1, Threw e)
      | (s1, Suspended) \<Rightarrow> (s1, Suspended)
      | (s1, Returned u) \<Rightarrow>
          (case i2cRead addr7 2 FT260_FLAG_START_STOP_REPEATED inbound s1 of
             (s2, Threw e) \<Rightarrow> (s2, Threw e)
           | (s2, Suspended) \<Rightarrow> (s2, Suspended)
           | (s2, Returned data) \<Rightarrow>
               (case getI2cStatus s2 of
                  (s3, Threw e) \<Rightarrow> (s3, Threw e)
                | (s3, Suspended) \<Rightarrow> (s3, Suspended)
                | (s3, Returned sb) \<Rightarrow>
                    let st = parseI2cStatus sb;
                        s4 = log_line (LogStatus (rawStatus st) (speedKhz st) (addrNack st) (dataNack st)) s3;
                        s5 = (if addrNack st then log_line LogNoDevice s4 else s4);
                        w = at0 data 0 OR push_bit 8 (at0 data 1)
                    in (s5, Returned \<lparr>raw = data, word = w\<rparr>))))"

subsection \<open>Schedules\<close>

text \<open>
  The program runs on one event loop: the stretches of the \<open>async\<close> functions, the
  input report handler and the timer callback run one at a time, in some order. A
  schedule is a list of such stretches. \<open>ReadArm\<close> is the stretch of a call of
  \<open>i2cRead\<close> that follows its awaited send.
\<close>

datatype event =
    ReadRequest int int int
  | ReadArm int
  | InputReport int "byte list"
  | TimerFires nat
  | Disconnect
  | Write int "byte list" int

fun step :: "event \<Rightarrow> state \<Rightarrow> state" where
  "step (ReadRequest addr7 len flag) s = fst (i2cRead_request addr7 len flag s)"
| "step (ReadArm len) s = i2cRead_arm len s"
| "step (InputReport reportId dv) s = deliver [(reportId, dv)] s"
| "step (TimerFires t) s = timerFired t s"
| "step Disconnect s = disconnectFT260 s"
| "step (Write addr7 bytes flag) s = fst (i2cWrite addr7 bytes flag s)"

fun run :: "event list \<Rightarrow> state \<Rightarrow> state" where
  "run [] s = s"
| "run (e # es) s = run es (step e s)"

text \<open>The promises settled so far, one entry for each call of \<open>resolve\<close> or \<open>reject\<close>.\<close>

definition settled_ids :: "state \<Rightarrow> nat list" where
  "settled_ids s = map fst (settled s)"

text \<open>
  No promise is settled twice, every promise in use is older than the next fresh
  number, and the promise of the pending read is not settled yet.
\<close>

definition ids_fresh :: "state \<Rightarrow> bool" where
  "ids_fresh s =
     (distinct (settled_ids s)
      \<and> list_all (\<lambda>p. p < nextId s) (settled_ids s)
      \<and> (case pendingRead s of
            None \<Rightarrow> True
          | Some pr \<Rightarrow> promise pr < nextId s \<and> promise pr \<notin> set (settled_ids s)))"

text \<open>A promise that was handed out, is not settled, and is no longer the pending one.\<close>

definition lost :: "nat \<Rightarrow> state \<Rightarrow> bool" where
  "lost p s =
     (p < nextId s \<and> p \<notin> set (settled_ids s)
      \<and> (case pendingRead s of None \<Rightarrow> True | Some pr \<Rightarrow> promise pr \<noteq> p))"

text \<open>The bytes that a sequence of input reports carries, in order.\<close>

fun chunks :: "(int \<times> byte list) list \<Rightarrow> byte list" where
  "chunks [] = []"
| "chunks ((reportId, dv) # rs) = (if dv = [] then chunks rs else chunk_of dv @ chunks rs)"

text \<open>The log lines that a sequence of input reports leaves, in order.\<close>

fun in_logs :: "(int \<times> byte list) list \<Rightarrow> log_entry list" where
  "in_logs [] = []"
| "in_logs ((reportId, dv) # rs) =
     (if dv = [] then in_logs rs
      else LogIn reportId (uint (hd dv)) (chunk_of dv) # in_logs rs)"

subsection \<open>A device that takes every report, and a connected session\<close>

definition fake_device :: device where
  "fake_device =
     \<lparr>sendReport = (\<lambda>reportId payload. True),
      receiveFeatureReport = (\<lambda>reportId. Some [0xC0, 0x24, 0x90, 0x01])\<rparr>"

definition connected0 :: state where
  "connected0 =
     \<lparr>dev = Some fake_device, pendingRead = None, nextId = 0, timers = [],
      settled = [], sent = [], logs = []\<rparr>"

text \<open>A read of five bytes that has already taken in three of them.\<close>

definition armed_abc :: state where
  "armed_abc =
     connected0\<lparr>pendingRead :=
                  Some \<lparr>want = 5, buf = [0x0A, 0x0B, 0x0C], promise = 0, timeoutId = 0\<rparr>,
                nextId := 1, timers := [0]\<rparr>"

subsection \<open>The inbound-data range of the specification\<close>

text \<open>
  Modelled from the spec: the range of report ids that carry read data. The spec
  names it without bounds and the program never tests a report id. The data reports of
  the bridge have the ids 0xD0 to 0xDE, the range \<open>connectFT260\<close> looks for among the
  output reports; no theorem below depends on the bounds beyond the one report id
  0xB1 lying outside.
\<close>

definition inbound_data_range :: "int \<Rightarrow> bool" where
  "inbound_data_range reportId = (0xD0 \<le> reportId \<and> reportId \<le> 0xDE)"

section \<open>Bytes and bits\<close>

lemma and_ff_take_bit: "(k::int) AND 0xFF = take_bit 8 k"
  by (simp add: take_bit_eq_mask mask_eq_exp_minus_1)

lemma and_7f_take_bit: "(k::int) AND 0x7F = take_bit 7 k"
  by (simp add: take_bit_eq_mask mask_eq_exp_minus_1)

lemma u8_and_ff: "u8 (k AND 0xFF) = word_of_int k"
  unfolding u8_def and_ff_take_bit
  by (simp add: word_of_int_eq_iff)

lemma uint_u8_and_7f: "uint (u8 (k AND 0x7F)) = k AND 0x7F"
  unfolding u8_def and_7f_take_bit
  by (simp add: uint_word_of_int_eq)

lemma at0_range: "0 \<le> at0 a i \<and> at0 a i < 256"
  using uint_lt2p [of "a ! i"] by (simp add: at0_def)

lemma or_push_bit8:
  "0 \<le> lo \<Longrightarrow> lo < 256 \<Longrightarrow> push_bit 8 hi OR lo = lo + 256 * (hi::int)"
proof -
  assume "0 \<le> lo" "lo < 256"
  then have low: "take_bit 8 lo = lo"
    by (simp add: take_bit_int_eq_self)
  then have "push_bit 8 hi OR lo = concat_bit 8 lo hi"
    by (simp add: concat_bit_def or.commute)
  also have "\<dots> = take_bit 8 lo + push_bit 8 hi"
    by (rule concat_bit_eq)
  finally show ?thesis
    using low by (simp add: push_bit_eq_mult)
qed

lemma write_payload_eq:
  "write_payload addr7 bytes flag =
     [word_of_int (addr7 AND 0x7F), word_of_int flag, of_nat (length bytes)] @ bytes"
  by (simp add: write_payload_def u8_and_ff) (simp add: u8_def)

section \<open>Report codec\<close>

text \<open>
  C6. The report id of an outbound write is \<open>0xD0 + floor((len - 1) / 4)\<close> for every
  payload length \<open>len\<close>, the division taken in the reals and rounded down as
  \<open>Math.floor\<close> does. The values at 1, 4, 5 and 60 are 0xD0, 0xD0, 0xD1 and 0xDE.
\<close>

theorem i2cDataReportId_formula:
  "i2cDataReportId len = 0xD0 + \<lfloor>(real_of_int len - 1) / 4\<rfloor>"
  unfolding i2cDataReportId_def FT260_I2C_REPORT_MIN_def
  by (metis floor_divide_of_int_eq of_int_1 of_int_diff of_int_numeral)

theorem i2cDataReportId_formula_witness:
  "i2cDataReportId 1 = 0xD0 \<and> i2cDataReportId 4 = 0xD0 \<and>
   i2cDataReportId 5 = 0xD1 \<and> i2cDataReportId 60 = 0xDE"
  using i2cDataReportId_formula [of 1] i2cDataReportId_formula [of 4]
    i2cDataReportId_formula [of 5] i2cDataReportId_formula [of 60]
  by simp

text \<open>
  C5. With a device open and at most 60 data bytes, \<open>i2cWrite\<close> hands the device one
  report: its id is the one of C6 and its payload is \<open>[addr & 0x7F, flag, len(data)]\<close>
  followed by the data, so the payload has \<open>3 + len(data)\<close> bytes and its byte 2 is
  \<open>len(data)\<close>. With more than 60 data bytes the call throws and leaves everything as
  it was: nothing is sent.
\<close>

theorem i2cWrite_encoding:
  "(dev s = Some d \<longrightarrow> length data \<le> 60 \<longrightarrow>
      (let payload = [word_of_int (addr AND 0x7F), word_of_int flag, of_nat (length data)] @ data
       in sent (fst (i2cWrite addr data flag s))
            = sent s @ [(i2cDataReportId (int (length data)), payload)]
        \<and> snd (i2cWrite addr data flag s)
            = (if sendReport d (i2cDataReportId (int (length data))) payload
               then Returned () else Threw ChannelError)
        \<and> length payload = 3 + length data
        \<and> unat (payload ! 2) = length data
        \<and> uint (payload ! 0) = addr AND 0x7F
        \<and> drop 3 payload = data))
   \<and> (length data > 60 \<longrightarrow>
        fst (i2cWrite addr data flag s) = s
      \<and> snd (i2cWrite addr data flag s) \<in> {Threw NotConnectedError, Threw WriteLengthError})"
proof (intro conjI impI)
  assume d: "dev s = Some d" and l: "length data \<le> 60"
  have u: "unat (of_nat (length data) :: byte) = length data"
    using l by (simp add: unat_of_nat)
  have a: "uint (word_of_int (addr AND 0x7F) :: byte) = addr AND 0x7F"
    using uint_u8_and_7f [of addr] by (simp add: u8_def)
  show "let payload = [word_of_int (addr AND 0x7F), word_of_int flag, of_nat (length data)] @ data
       in sent (fst (i2cWrite addr data flag s))
            = sent s @ [(i2cDataReportId (int (length data)), payload)]
        \<and> snd (i2cWrite addr data flag s)
            = (if sendReport d (i2cDataReportId (int (length data))) payload
               then Returned () else Threw ChannelError)
        \<and> length payload = 3 + length data
        \<and> unat (payload ! 2) = length data
        \<and> uint (payload ! 0) = addr AND 0x7F
        \<and> drop 3 payload = data"
    using d l u a
    by (simp add: i2cWrite_def write_payload_eq FT260_WR_DATA_MAX_def log_line_def Let_def)
next
  assume "60 < length data"
  then show "fst (i2cWrite addr data flag s) = s"
    by (simp add: i2cWrite_def FT260_WR_DATA_MAX_def split: option.splits)
next
  assume "60 < length data"
  then show "snd (i2cWrite addr data flag s) \<in> {Threw NotConnectedError, Threw WriteLengthError}"
    by (simp add: i2cWrite_def FT260_WR_DATA_MAX_def split: option.splits)
qed

theorem i2cWrite_encoding_witness:
  "sent (fst (i2cWrite 0x5A [0x8B] 0x02 connected0)) = [(0xD0, [0x5A, 0x02, 0x01, 0x8B])]
   \<and> snd (i2cWrite 0x5A [0x8B] 0x02 connected0) = Returned ()
   \<and> fst (i2cWrite 0x5A (replicate 61 0xAA) 0x06 connected0) = connected0
   \<and> snd (i2cWrite 0x5A (replicate 61 0xAA) 0x06 connected0) \<noteq> Returned ()"
  using i2cWrite_encoding [where s = connected0 and d = fake_device and addr = "0x5A"
      and data = "[0x8B]" and flag = "0x02"]
    i2cWrite_encoding [where s = connected0 and d = fake_device and addr = "0x5A"
      and data = "replicate 61 0xAA" and flag = "0x06"]
  by (auto simp: connected0_def fake_device_def i2cDataReportId_def FT260_I2C_REPORT_MIN_def
      Let_def)

text \<open>
  C10. A write with no data bytes passes the length check, which only refuses more
  than 60 bytes. Its report id is \<open>0xD0 + floor(-1 / 4) = 0xCF\<close>, one below the range
  0xD0 to 0xDE of the write reports, and the report is handed to the device all the
  same.
\<close>

theorem i2cWrite_empty_payload:
  "dev s = Some d \<Longrightarrow>
     sent (fst (i2cWrite addr [] flag s))
       = sent s @ [(0xCF, [word_of_int (addr AND 0x7F), word_of_int flag, 0])]
   \<and> snd (i2cWrite addr [] flag s) \<noteq> Threw WriteLengthError
   \<and> i2cDataReportId (int (length ([] :: byte list))) = 0xD0 + \<lfloor>(-1 :: real) / 4\<rfloor>
   \<and> i2cDataReportId (int (length ([] :: byte list))) = 0xCF
   \<and> i2cDataReportId (int (length ([] :: byte list))) < FT260_I2C_REPORT_MIN
   \<and> i2cDataReportId (int (length ([] :: byte list))) \<notin> {0xD0 .. 0xDE}"
  by (simp add: i2cWrite_def write_payload_eq FT260_WR_DATA_MAX_def log_line_def Let_def
      i2cDataReportId_def FT260_I2C_REPORT_MIN_def)

theorem i2cWrite_empty_payload_witness:
  "sent (fst (i2cWrite 0x5A [] 0x06 connected0)) = [(0xCF, [0x5A, 0x06, 0x00])]
   \<and> snd (i2cWrite 0x5A [] 0x06 connected0) \<noteq> Threw WriteLengthError"
  using i2cWrite_empty_payload [where s = connected0 and d = fake_device and addr = "0x5A"
      and flag = "0x06"]
  by (simp add: connected0_def)

section \<open>Status decoder\<close>

text \<open>
  C7. \<open>parseI2cStatus\<close> is defined on every byte array: a missing byte counts as
  zero, so the result is that of the array padded with zeros and cut to four bytes.
  Bits 0 to 6 of byte 1 are busy, error, addrNack, dataNack, arbLost, idle and
  busBusy; bytes 2 and 3 are the clock speed in kHz, low byte first. The block
  \<open>[0xC0, 0x05, 0x90, 0x01]\<close> decodes to addrNack, busy and 400 kHz.
\<close>

theorem parseI2cStatus_decode:
  "parseI2cStatus bytes = parseI2cStatus (take 4 (bytes @ replicate 4 0))
   \<and> rawStatus (parseI2cStatus bytes) = at0 bytes 1
   \<and> controllerBusy (parseI2cStatus bytes) = bit (at0 bytes 1) 0
   \<and> error (parseI2cStatus bytes) = bit (at0 bytes 1) 1
   \<and> addrNack (parseI2cStatus bytes) = bit (at0 bytes 1) 2
   \<and> dataNack (parseI2cStatus bytes) = bit (at0 bytes 1) 3
   \<and> arbLost (parseI2cStatus bytes) = bit (at0 bytes 1) 4
   \<and> idle (parseI2cStatus bytes) = bit (at0 bytes 1) 5
   \<and> busBusy (parseI2cStatus bytes) = bit (at0 bytes 1) 6
   \<and> speedKhz (parseI2cStatus bytes) = at0 bytes 2 + 256 * at0 bytes 3"
proof -
  have pad: "at0 (take 4 (bytes @ replicate 4 0)) i = at0 bytes i" if "i < 4" for i
    using that by (auto simp: at0_def nth_append)
  have a: "parseI2cStatus bytes = parseI2cStatus (take 4 (bytes @ replicate 4 0))"
  proof -
    have p1: "at0 (take 4 (bytes @ replicate 4 0)) 1 = at0 bytes 1" by (rule pad) simp
    have p2: "at0 (take 4 (bytes @ replicate 4 0)) 2 = at0 bytes 2" by (rule pad) simp
    have p3: "at0 (take 4 (bytes @ replicate 4 0)) 3 = at0 bytes 3" by (rule pad) simp
    show ?thesis unfolding parseI2cStatus_def p1 p2 p3 by (rule refl)
  qed
  have b: "speedKhz (parseI2cStatus bytes) = at0 bytes 2 + 256 * at0 bytes 3"
    using at0_range [of bytes 2] by (simp add: parseI2cStatus_def Let_def or_push_bit8)
  show ?thesis
    apply (intro conjI a b)
    by (simp_all add: parseI2cStatus_def Let_def bit_iff_and_push_bit_not_eq_0)
qed

theorem parseI2cStatus_decode_witness:
  "addrNack (parseI2cStatus [0xC0, 0x05, 0x90, 0x01]) \<and>
   controllerBusy (parseI2cStatus [0xC0, 0x05, 0x90, 0x01]) \<and>
   \<not> dataNack (parseI2cStatus [0xC0, 0x05, 0x90, 0x01]) \<and>
   speedKhz (parseI2cStatus [0xC0, 0x05, 0x90, 0x01]) = 400 \<and>
   \<not> addrNack (parseI2cStatus [0xC0]) \<and>
   speedKhz (parseI2cStatus [0xC0]) = 0"
  using parseI2cStatus_decode [of "[0xC0, 0x05, 0x90, 0x01]", THEN conjunct2]
    parseI2cStatus_decode [of "[0xC0]", THEN conjunct2]
  by (simp add: at0_def)

section \<open>Pending read: input reports\<close>

lemma slice0_nonneg: "0 \<le> e \<Longrightarrow> slice0 a e = take (nat e) a"
  by (simp add: slice0_def)

lemma onInputReport_armed:
  assumes "pendingRead s = Some pr" "int (length (buf pr)) \<le> want pr" "dv \<noteq> []"
  shows "onInputReport reportId dv s =
           (let acc = buf pr @ take (nat (want pr - int (length (buf pr)))) (chunk_of dv);
                s1 = log_line (LogIn reportId (uint (hd dv)) (chunk_of dv)) s
            in if want pr \<le> int (length (buf pr)) + int (length (chunk_of dv))
               then Inr (settle (promise pr) (Fulfilled acc)
                          (clearTimeout (timeoutId pr) (s1\<lparr>pendingRead := None\<rparr>)))
               else Inr (s1\<lparr>pendingRead := Some (pr\<lparr>buf := acc\<rparr>)\<rparr>))"
proof (cases "want pr \<le> int (length (buf pr)) + int (length (chunk_of dv))")
  case True
  then show ?thesis
    using assms
    by (simp add: onInputReport_def Let_def log_line_def slice0_nonneg min_def nat_diff_distrib')
next
  case False
  then show ?thesis
    using assms
    by (simp add: onInputReport_def Let_def log_line_def slice0_nonneg min_def nat_diff_distrib')
qed

lemma onInputReport_idle:
  "pendingRead s = None \<Longrightarrow> dv \<noteq> [] \<Longrightarrow>
     onInputReport reportId dv s = Inr (log_line (LogIn reportId (uint (hd dv)) (chunk_of dv)) s)"
  by (simp add: onInputReport_def Let_def log_line_def)

text \<open>
  C1. While a read of \<open>want\<close> bytes is pending and holds at most \<open>want\<close> bytes, an
  input report adds the first \<open>want - buf.length\<close> bytes of its chunk and drops the
  rest. When the chunk reaches the wanted length, the read is cleared, its timer is
  cleared and its promise is fulfilled with exactly the first \<open>want\<close> bytes of what
  was received; otherwise the read stays pending with the longer buffer and nothing
  is settled. A read of five bytes that is fed \<open>[a, b, c]\<close> and then \<open>[d, e]\<close> is
  fulfilled with \<open>[a, b, c, d, e]\<close>.
\<close>

theorem onInputReport_reassembly:
  "(pendingRead s = Some pr \<longrightarrow> int (length (buf pr)) \<le> want pr \<longrightarrow> dv \<noteq> [] \<longrightarrow>
      (\<exists>s'. onInputReport reportId dv s = Inr s'
         \<and> (let room = nat (want pr) - length (buf pr);
                 appended = take room (chunk_of dv);
                 acc = buf pr @ appended
             in length appended = min room (length (chunk_of dv))
              \<and> (if want pr \<le> int (length (buf pr) + length (chunk_of dv))
                 then pendingRead s' = None
                    \<and> settled s' = settled s @ [(promise pr, Fulfilled acc)]
                    \<and> int (length acc) = want pr
                    \<and> acc = take (nat (want pr)) (buf pr @ chunk_of dv)
                    \<and> timeoutId pr \<notin> set (timers s')
                 else pendingRead s' = Some (pr\<lparr>buf := acc\<rparr>)
                    \<and> settled s' = settled s
                    \<and> int (length acc) < want pr))))
   \<and> pendingRead (deliver [(r1, [3, a, b, c])] (i2cRead_arm 5 s))
       = Some \<lparr>want = 5, buf = [a, b, c], promise = nextId s, timeoutId = nextId s\<rparr>
   \<and> settled (deliver [(r1, [3, a, b, c])] (i2cRead_arm 5 s)) = settled s
   \<and> pendingRead (deliver [(r1, [3, a, b, c]), (r2, [2, d, e])] (i2cRead_arm 5 s)) = None
   \<and> settled (deliver [(r1, [3, a, b, c]), (r2, [2, d, e])] (i2cRead_arm 5 s))
       = settled s @ [(nextId s, Fulfilled [a, b, c, d, e])]"
proof (intro conjI impI)
  assume a: "pendingRead s = Some pr" "int (length (buf pr)) \<le> want pr" "dv \<noteq> []"
  show "\<exists>s'. onInputReport reportId dv s = Inr s'
         \<and> (let room = nat (want pr) - length (buf pr);
                 appended = take room (chunk_of dv);
                 acc = buf pr @ appended
             in length appended = min room (length (chunk_of dv))
              \<and> (if want pr \<le> int (length (buf pr) + length (chunk_of dv))
                 then pendingRead s' = None
                    \<and> settled s' = settled s @ [(promise pr, Fulfilled acc)]
                    \<and> int (length acc) = want pr
                    \<and> acc = take (nat (want pr)) (buf pr @ chunk_of dv)
                    \<and> timeoutId pr \<notin> set (timers s')
                 else pendingRead s' = Some (pr\<lparr>buf := acc\<rparr>)
                    \<and> settled s' = settled s
                    \<and> int (length acc) < want pr))"
  proof (cases "want pr \<le> int (length (buf pr) + length (chunk_of dv))")
    case True
    then have r: "nat (want pr) - length (buf pr) \<le> length (chunk_of dv)"
      by linarith
    have w: "int (length (buf pr)) + int (nat (want pr) - length (buf pr)) = want pr"
      using a(2) by linarith
    from a True r w show ?thesis
      by (simp add: onInputReport_armed [OF a] Let_def settle_def clearTimeout_def
          log_line_def nat_diff_distrib' min_def)
  next
    case False
    then have r: "length (chunk_of dv) < nat (want pr) - length (buf pr)"
      by linarith
    from a False r show ?thesis
      by (simp add: onInputReport_armed [OF a] Let_def settle_def clearTimeout_def
          log_line_def nat_diff_distrib' min_def)
  qed
next
  have first: "deliver [(r1, [3, a, b, c])] (i2cRead_arm 5 s)
      = (i2cRead_arm 5 s)\<lparr>logs := logs s @ [LogIn r1 3 [a, b, c]],
           pendingRead := Some \<lparr>want = 5, buf = [a, b, c], promise = nextId s, timeoutId = nextId s\<rparr>\<rparr>"
    by (simp add: i2cRead_arm_def onInputReport_def chunk_of_def slice0_def log_line_def Let_def)
  show "pendingRead (deliver [(r1, [3, a, b, c])] (i2cRead_arm 5 s))
       = Some \<lparr>want = 5, buf = [a, b, c], promise = nextId s, timeoutId = nextId s\<rparr>"
    by (simp only: first) simp
  show "settled (deliver [(r1, [3, a, b, c])] (i2cRead_arm 5 s)) = settled s"
    by (simp only: first) (simp add: i2cRead_arm_def Let_def)
  have both: "deliver [(r1, [3, a, b, c]), (r2, [2, d, e])] (i2cRead_arm 5 s)
      = deliver [(r2, [2, d, e])] (deliver [(r1, [3, a, b, c])] (i2cRead_arm 5 s))"
    by simp
  show "pendingRead (deliver [(r1, [3, a, b, c]), (r2, [2, d, e])] (i2cRead_arm 5 s)) = None"
    unfolding both first
    by (simp add: i2cRead_arm_def onInputReport_def chunk_of_def slice0_def log_line_def Let_def
        settle_def clearTimeout_def)
  show "settled (deliver [(r1, [3, a, b, c]), (r2, [2, d, e])] (i2cRead_arm 5 s))
       = settled s @ [(nextId s, Fulfilled [a, b, c, d, e])]"
    unfolding both first
    by (simp add: i2cRead_arm_def onInputReport_def chunk_of_def slice0_def log_line_def Let_def
        settle_def clearTimeout_def)
qed

theorem onInputReport_reassembly_witness:
  "(\<exists>s'. onInputReport 0xD0 [0x02, 0x0D, 0x0E] armed_abc = Inr s'
        \<and> pendingRead s' = None
        \<and> settled s' = [(0, Fulfilled [0x0A, 0x0B, 0x0C, 0x0D, 0x0E])])
   \<and> (\<exists>s'. onInputReport 0xD0 [0x04, 0x0D, 0x0E, 0x0F, 0x10] armed_abc = Inr s'
        \<and> pendingRead s' = None
        \<and> settled s' = [(0, Fulfilled [0x0A, 0x0B, 0x0C, 0x0D, 0x0E])])
   \<and> (\<exists>s'. onInputReport 0xD0 [0x01, 0x0D] armed_abc = Inr s'
        \<and> pendingRead s' = Some \<lparr>want = 5, buf = [0x0A, 0x0B, 0x0C, 0x0D], promise = 0, timeoutId = 0\<rparr>
        \<and> settled s' = [])
   \<and> settled (deliver [(0xD0, [3, 0x0A, 0x0B, 0x0C]), (0xD0, [2, 0x0D, 0x0E])]
                (i2cRead_arm 5 connected0))
       = [(0, Fulfilled [0x0A, 0x0B, 0x0C, 0x0D, 0x0E])]"
proof -
  let ?pr = "\<lparr>want = 5, buf = [0x0A, 0x0B, 0x0C], promise = 0, timeoutId = 0\<rparr> :: pending"
  have p: "pendingRead armed_abc = Some ?pr" and st: "settled armed_abc = []"
    by (simp_all add: armed_abc_def connected0_def)
  have l: "int (length (buf ?pr)) \<le> want ?pr" by simp
  note t = onInputReport_reassembly [where s = armed_abc and pr = ?pr and reportId = "0xD0",
      THEN conjunct1, rule_format, OF p l]
  have c1: "chunk_of [0x02, 0x0D, 0x0E] = [0x0D, 0x0E]"
    and c2: "chunk_of [0x04, 0x0D, 0x0E, 0x0F, 0x10] = [0x0D, 0x0E, 0x0F, 0x10]"
    and c3: "chunk_of [0x01, 0x0D] = [0x0D]"
    by (simp_all add: chunk_of_def)
  have a: "\<exists>s'. onInputReport 0xD0 [0x02, 0x0D, 0x0E] armed_abc = Inr s'
        \<and> pendingRead s' = None
        \<and> settled s' = [(0, Fulfilled [0x0A, 0x0B, 0x0C, 0x0D, 0x0E])]"
    using t [of "[0x02, 0x0D, 0x0E]"] by (auto simp add: c1 st Let_def)
  have b: "\<exists>s'. onInputReport 0xD0 [0x04, 0x0D, 0x0E, 0x0F, 0x10] armed_abc = Inr s'
        \<and> pendingRead s' = None
        \<and> settled s' = [(0, Fulfilled [0x0A, 0x0B, 0x0C, 0x0D, 0x0E])]"
    using t [of "[0x04, 0x0D, 0x0E, 0x0F, 0x10]"] by (auto simp add: c2 st Let_def)
  have c: "\<exists>s'. onInputReport 0xD0 [0x01, 0x0D] armed_abc = Inr s'
        \<and> pendingRead s' = Some \<lparr>want = 5, buf = [0x0A, 0x0B, 0x0C, 0x0D], promise = 0, timeoutId = 0\<rparr>
        \<and> settled s' = []"
    using t [of "[0x01, 0x0D]"] by (auto simp add: c3 st Let_def)
  have d: "settled (deliver [(0xD0, [3, 0x0A, 0x0B, 0x0C]), (0xD0, [2, 0x0D, 0x0E])]
                (i2cRead_arm 5 connected0))
       = [(0, Fulfilled [0x0A, 0x0B, 0x0C, 0x0D, 0x0E])]"
    using onInputReport_reassembly [where s = connected0 and ?r1.0 = "0xD0" and ?r2.0 = "0xD0"
        and a = "0x0A" and b = "0x0B" and c = "0x0C" and d = "0x0D" and e = "0x0E",
        THEN conjunct2]
    by (simp add: connected0_def)
  from a b c d show ?thesis by blast
qed

text \<open>
  C8, as the program has it. The claim that a report outside the inbound-data range
  never feeds the pending read fails: \<open>onInputReport\<close> reads the report id for the
  log line only. A report with the id 0xB1 fulfils a pending read of two bytes.
\<close>

theorem onInputReport_no_filter_counterexample:
  "\<not> inbound_data_range 0xB1
   \<and> pendingRead (i2cRead_arm 2 connected0)
       = Some \<lparr>want = 2, buf = [], promise = 0, timeoutId = 0\<rparr>
   \<and> onInputReport 0xB1 [0x02, 0x34, 0x12] (i2cRead_arm 2 connected0)
       = Inr (connected0\<lparr>nextId := 1,
                settled := [(0, Fulfilled [0x34, 0x12])],
                logs := [LogIn 0xB1 2 [0x34, 0x12]]\<rparr>)"
  by (simp add: inbound_data_range_def i2cRead_arm_def connected0_def onInputReport_def
      chunk_of_def slice0_def log_line_def settle_def clearTimeout_def Let_def)

text \<open>
  C8, amended. The report id of an input report changes nothing but the log line:
  two reports with the same bytes and different ids leave the same pending read,
  settlements and timers. Whatever its id, a report with a non-empty chunk changes a
  pending read that still lacks bytes, and a report is only logged when no read is
  pending.
\<close>

theorem onInputReport_ignores_reportId:
  "onInputReport r2 dv s
     = map_sum id (\<lambda>s'. s'\<lparr>logs := logs s @ [LogIn r2 (uint (hd dv)) (chunk_of dv)]\<rparr>)
         (onInputReport r1 dv s)
   \<and> (pendingRead s = Some pr \<longrightarrow> int (length (buf pr)) < want pr \<longrightarrow> dv \<noteq> [] \<longrightarrow>
        chunk_of dv \<noteq> [] \<longrightarrow>
        (\<exists>s'. onInputReport r2 dv s = Inr s' \<and> pendingRead s' \<noteq> pendingRead s))
   \<and> (pendingRead s = None \<longrightarrow> dv \<noteq> [] \<longrightarrow>
        onInputReport r2 dv s
          = Inr (s\<lparr>logs := logs s @ [LogIn r2 (uint (hd dv)) (chunk_of dv)]\<rparr>))"
proof (intro conjI impI)
  show "onInputReport r2 dv s
     = map_sum id (\<lambda>s'. s'\<lparr>logs := logs s @ [LogIn r2 (uint (hd dv)) (chunk_of dv)]\<rparr>)
         (onInputReport r1 dv s)"
    by (simp add: onInputReport_def Let_def log_line_def settle_def clearTimeout_def
        split: option.splits)
next
  assume a: "pendingRead s = Some pr" "int (length (buf pr)) < want pr" "dv \<noteq> []"
    and c: "chunk_of dv \<noteq> []"
  have l: "int (length (buf pr)) \<le> want pr" using a(2) by simp
  have grow: "take (nat (want pr - int (length (buf pr)))) (chunk_of dv) \<noteq> []"
    using a(2) c by simp
  have ne: "pr\<lparr>buf := buf pr @ xs\<rparr> \<noteq> pr" if "xs \<noteq> []" for xs
    using that
    by (metis append_self_conv pending.select_convs(2) pending.surjective pending.update_convs(2))
  show "\<exists>s'. onInputReport r2 dv s = Inr s' \<and> pendingRead s' \<noteq> pendingRead s"
    using a ne [OF grow] ne [OF c] by (simp add: onInputReport_armed [OF a(1) l a(3)] Let_def settle_def
        clearTimeout_def log_line_def)
next
  assume "pendingRead s = None" "dv \<noteq> []"
  then show "onInputReport r2 dv s
          = Inr (s\<lparr>logs := logs s @ [LogIn r2 (uint (hd dv)) (chunk_of dv)]\<rparr>)"
    by (simp add: onInputReport_idle log_line_def)
qed

theorem onInputReport_ignores_reportId_witness:
  "onInputReport 0xB1 [0x01, 0x0D] armed_abc
     = map_sum id (\<lambda>s'. s'\<lparr>logs := [LogIn 0xB1 1 [0x0D]]\<rparr>) (onInputReport 0xD0 [0x01, 0x0D] armed_abc)
   \<and> (\<exists>s'. onInputReport 0xB1 [0x01, 0x0D] armed_abc = Inr s'
         \<and> pendingRead s' \<noteq> pendingRead armed_abc)
   \<and> onInputReport 0xB1 [0x01, 0x0D] connected0 = Inr (connected0\<lparr>logs := [LogIn 0xB1 1 [0x0D]]\<rparr>)"
proof -
  have c: "chunk_of [0x01, 0x0D] = [0x0D]" by (simp add: chunk_of_def)
  have la: "logs armed_abc = []" and lc: "logs connected0 = []"
    by (simp_all add: armed_abc_def connected0_def)
  note t = onInputReport_ignores_reportId [where ?r2.0 = "0xB1" and dv = "[0x01, 0x0D]"]
  have 1: "onInputReport 0xB1 [0x01, 0x0D] armed_abc
     = map_sum id (\<lambda>s'. s'\<lparr>logs := [LogIn 0xB1 1 [0x0D]]\<rparr>) (onInputReport 0xD0 [0x01, 0x0D] armed_abc)"
    using t [where s = armed_abc and ?r1.0 = "0xD0", THEN conjunct1] by (simp add: c la)
  have 2: "\<exists>s'. onInputReport 0xB1 [0x01, 0x0D] armed_abc = Inr s'
         \<and> pendingRead s' \<noteq> pendingRead armed_abc"
    using t [where s = armed_abc and pr = "\<lparr>want = 5, buf = [0x0A, 0x0B, 0x0C], promise = 0, timeoutId = 0\<rparr>",
        THEN conjunct2, THEN conjunct1]
    by (simp add: c armed_abc_def connected0_def)
  have 3: "onInputReport 0xB1 [0x01, 0x0D] connected0 = Inr (connected0\<lparr>logs := [LogIn 0xB1 1 [0x0D]]\<rparr>)"
    using t [where s = connected0, THEN conjunct2, THEN conjunct2]
    by (simp add: c lc) (simp add: connected0_def)
  from 1 2 3 show ?thesis by blast
qed

section \<open>Transport session: reading\<close>

lemma read_request_eq:
  "0 \<le> len \<Longrightarrow> len \<le> 60 \<Longrightarrow>
     read_request addr7 len flag = [word_of_int (addr7 AND 0x7F), word_of_int flag, word_of_int len, 0]"
proof -
  assume a: "0 \<le> len" "len \<le> 60"
  have hi: "drop_bit 8 len = 0"
    using a by (simp add: drop_bit_eq_div)
  show ?thesis
    by (simp add: read_request_def u8_and_ff hi) (simp add: u8_def)
qed

lemma onInputReport_frame:
  "onInputReport reportId dv s = Inr s' \<Longrightarrow>
     dev s' = dev s \<and> nextId s' = nextId s \<and> sent s' = sent s"
  by (auto simp: onInputReport_def Let_def log_line_def settle_def clearTimeout_def
      split: if_splits option.splits)

lemma clearPendingRead_idle: "pendingRead s = None \<Longrightarrow> clearPendingRead err s = s"
  by (simp add: clearPendingRead_def)

lemma timerFired_armed:
  "pendingRead s = Some pr \<Longrightarrow> timeoutId pr \<in> set (timers s) \<Longrightarrow>
     timerFired (timeoutId pr) s
       = s\<lparr>pendingRead := None, timers := removeAll (timeoutId pr) (timers s),
            settled := settled s @ [(promise pr, Rejected TimeoutError)]\<rparr>"
  by (simp add: timerFired_def clearPendingRead_def clearTimeout_def settle_def Let_def)

lemma i2cRead_request_idle:
  "dev s = Some d \<Longrightarrow> pendingRead s = None \<Longrightarrow> 0 \<le> len \<Longrightarrow> len \<le> 60 \<Longrightarrow>
     i2cRead_request addr len flag s
       = (s\<lparr>logs := logs s @ [LogOutReadReq 0xC2 addr flag len],
             sent := sent s @ [(0xC2, read_request addr len flag)]\<rparr>,
          if sendReport d 0xC2 (read_request addr len flag) then Returned () else Threw ChannelError)"
  by (simp add: i2cRead_request_def FT260_RD_DATA_MAX_def FT260_I2C_READ_REQ_def log_line_def
      Let_def)

text \<open>
  C9, as the program has it. The claim that the read is armed before the request goes
  out fails: \<open>i2cRead\<close> calls \<open>dev.sendReport\<close> first and stores \<open>pendingRead\<close> only
  after the awaited send has come back. When the request has been handed to the
  device, no read is pending and no timer is set.
\<close>

theorem i2cRead_order_counterexample:
  "sent (fst (i2cRead_request 0x5A 2 0x07 connected0)) = [(0xC2, [0x5A, 0x07, 0x02, 0x00])]
   \<and> snd (i2cRead_request 0x5A 2 0x07 connected0) = Returned ()
   \<and> pendingRead (fst (i2cRead_request 0x5A 2 0x07 connected0)) = None
   \<and> timers (fst (i2cRead_request 0x5A 2 0x07 connected0)) = []"
  by (simp add: i2cRead_request_def connected0_def fake_device_def read_request_eq
      FT260_RD_DATA_MAX_def FT260_I2C_READ_REQ_def log_line_def Let_def)

text \<open>
  C9, amended. With a device open, no read pending and a length from 0 to 60,
  \<open>i2cRead\<close> first hands the device the read request
  \<open>[addr & 0x7F, flag, length, 0]\<close> under the id 0xC2, with no read pending yet. Only
  the stretch after the send sets the timer and stores the pending read, and it sends
  nothing. If the device rejects the request the call throws and no read is ever
  armed.
\<close>

theorem i2cRead_sends_then_arms:
  "dev s = Some d \<Longrightarrow> pendingRead s = None \<Longrightarrow> 0 \<le> len \<Longrightarrow> len \<le> 60 \<Longrightarrow>
     (let req = [word_of_int (addr AND 0x7F), word_of_int flag, word_of_int len, 0];
          s1 = fst (i2cRead_request addr len flag s);
          s2 = i2cRead_arm len s1
      in sent s1 = sent s @ [(0xC2, req)]
       \<and> pendingRead s1 = None
       \<and> timers s1 = timers s
       \<and> snd (i2cRead_request addr len flag s)
           = (if sendReport d 0xC2 req then Returned () else Threw ChannelError)
       \<and> sent s2 = sent s1
       \<and> pendingRead s2 = Some \<lparr>want = len, buf = [], promise = nextId s, timeoutId = nextId s\<rparr>
       \<and> timers s2 = timers s @ [nextId s]
       \<and> (\<not> sendReport d 0xC2 req \<longrightarrow> i2cRead addr len flag inbound s = (s1, Threw ChannelError))
       \<and> (sendReport d 0xC2 req \<longrightarrow>
            fst (i2cRead addr len flag inbound s) = timerFired (nextId s) (deliver inbound s2)))"
  by (simp add: i2cRead_def i2cRead_request_def i2cRead_arm_def read_request_eq
      FT260_RD_DATA_MAX_def FT260_I2C_READ_REQ_def log_line_def Let_def)

theorem i2cRead_sends_then_arms_witness:
  "(let s1 = fst (i2cRead_request 0x5A 2 0x07 connected0)
    in sent s1 = [(0xC2, [0x5A, 0x07, 0x02, 0x00])]
     \<and> pendingRead s1 = None
     \<and> sent (i2cRead_arm 2 s1) = sent s1
     \<and> pendingRead (i2cRead_arm 2 s1) = Some \<lparr>want = 2, buf = [], promise = 0, timeoutId = 0\<rparr>)"
  using i2cRead_sends_then_arms [where s = connected0 and d = fake_device and len = 2
      and addr = "0x5A" and flag = "0x07"]
  by (simp add: connected0_def Let_def)

text \<open>
  C3. A call of \<open>i2cRead\<close> while a read is pending throws and changes nothing, the
  pending read included; with a device open and a length from 0 to 60 the error is the
  one of the conflict check. After the pending read has timed out, or an input report
  has fulfilled it, a new call passes the checks and, the device taking the request,
  arms a fresh read.
\<close>

theorem i2cRead_single_in_flight:
  "(pendingRead s = Some pr \<longrightarrow>
       fst (i2cRead addr len flag inbound s) = s
     \<and> (\<exists>e. snd (i2cRead addr len flag inbound s) = Threw e)
     \<and> (dev s \<noteq> None \<longrightarrow> 0 \<le> len \<longrightarrow> len \<le> 60 \<longrightarrow>
          snd (i2cRead addr len flag inbound s) = Threw ConflictError))
   \<and> (pendingRead s = Some pr \<longrightarrow> dev s = Some d \<longrightarrow> 0 \<le> len \<longrightarrow> len \<le> 60 \<longrightarrow>
       sendReport d 0xC2 (read_request addr len flag) \<longrightarrow>
       timeoutId pr \<in> set (timers s) \<longrightarrow>
         (let s' = timerFired (timeoutId pr) s
          in settled s' = settled s @ [(promise pr, Rejected TimeoutError)]
           \<and> snd (i2cRead_request addr len flag s') = Returned ()
           \<and> pendingRead (i2cRead_arm len (fst (i2cRead_request addr len flag s')))
               = Some \<lparr>want = len, buf = [], promise = nextId s, timeoutId = nextId s\<rparr>))
   \<and> (pendingRead s = Some pr \<longrightarrow> dev s = Some d \<longrightarrow> 0 \<le> len \<longrightarrow> len \<le> 60 \<longrightarrow>
       sendReport d 0xC2 (read_request addr len flag) \<longrightarrow>
       onInputReport reportId dv s = Inr s' \<longrightarrow> pendingRead s' = None \<longrightarrow>
           snd (i2cRead_request addr len flag s') = Returned ()
         \<and> pendingRead (i2cRead_arm len (fst (i2cRead_request addr len flag s')))
             = Some \<lparr>want = len, buf = [], promise = nextId s, timeoutId = nextId s\<rparr>)"
proof (intro conjI impI)
  assume p: "pendingRead s = Some pr"
  show "fst (i2cRead addr len flag inbound s) = s"
    using p by (simp add: i2cRead_def i2cRead_request_def split: option.splits)
  show "\<exists>e. snd (i2cRead addr len flag inbound s) = Threw e"
    using p by (simp add: i2cRead_def i2cRead_request_def split: option.splits)
  show "snd (i2cRead addr len flag inbound s) = Threw ConflictError"
    if "dev s \<noteq> None" "0 \<le> len" "len \<le> 60"
    using p that
    by (auto simp: i2cRead_def i2cRead_request_def FT260_RD_DATA_MAX_def)
next
  assume p: "pendingRead s = Some pr" and d: "dev s = Some d" and l: "0 \<le> len" "len \<le> 60"
    and ok: "sendReport d 0xC2 (read_request addr len flag)"
    and t: "timeoutId pr \<in> set (timers s)"
  let ?s' = "timerFired (timeoutId pr) s"
  have s': "dev ?s' = Some d" "pendingRead ?s' = None" "nextId ?s' = nextId s"
    using d by (simp_all add: timerFired_armed [OF p t])
  show "let s' = timerFired (timeoutId pr) s
          in settled s' = settled s @ [(promise pr, Rejected TimeoutError)]
           \<and> snd (i2cRead_request addr len flag s') = Returned ()
           \<and> pendingRead (i2cRead_arm len (fst (i2cRead_request addr len flag s')))
               = Some \<lparr>want = len, buf = [], promise = nextId s, timeoutId = nextId s\<rparr>"
    using ok s'(3)
    by (simp add: Let_def i2cRead_request_idle [OF s'(1) s'(2) l] i2cRead_arm_def)
      (simp add: timerFired_armed [OF p t])
next
  assume p: "pendingRead s = Some pr" and d: "dev s = Some d" and l: "0 \<le> len" "len \<le> 60"
    and ok: "sendReport d 0xC2 (read_request addr len flag)"
    and r: "onInputReport reportId dv s = Inr s'" and n: "pendingRead s' = None"
  have s': "dev s' = Some d" "nextId s' = nextId s"
    using onInputReport_frame [OF r] d by simp_all
  show "snd (i2cRead_request addr len flag s') = Returned ()"
    using ok by (simp add: i2cRead_request_idle [OF s'(1) n l])
  show "pendingRead (i2cRead_arm len (fst (i2cRead_request addr len flag s')))
             = Some \<lparr>want = len, buf = [], promise = nextId s, timeoutId = nextId s\<rparr>"
    using s'(2) by (simp add: i2cRead_request_idle [OF s'(1) n l] i2cRead_arm_def Let_def)
qed

theorem i2cRead_single_in_flight_witness:
  "i2cRead 0x5A 2 0x07 [] armed_abc = (armed_abc, Threw ConflictError)
   \<and> settled (timerFired 0 armed_abc) = [(0, Rejected TimeoutError)]
   \<and> snd (i2cRead_request 0x5A 2 0x07 (timerFired 0 armed_abc)) = Returned ()
   \<and> pendingRead (i2cRead_arm 2 (fst (i2cRead_request 0x5A 2 0x07 (timerFired 0 armed_abc))))
       = Some \<lparr>want = 2, buf = [], promise = 1, timeoutId = 1\<rparr>
   \<and> settled (deliver [(0xD0, [0x02, 0x0D, 0x0E])] armed_abc)
       = [(0, Fulfilled [0x0A, 0x0B, 0x0C, 0x0D, 0x0E])]
   \<and> snd (i2cRead_request 0x5A 2 0x07 (deliver [(0xD0, [0x02, 0x0D, 0x0E])] armed_abc))
       = Returned ()
   \<and> pendingRead (i2cRead_arm 2 (fst (i2cRead_request 0x5A 2 0x07
         (deliver [(0xD0, [0x02, 0x0D, 0x0E])] armed_abc))))
       = Some \<lparr>want = 2, buf = [], promise = 1, timeoutId = 1\<rparr>"
proof -
  let ?pr = "\<lparr>want = 5, buf = [0x0A, 0x0B, 0x0C], promise = 0, timeoutId = 0\<rparr> :: pending"
  let ?s' = "deliver [(0xD0, [0x02, 0x0D, 0x0E])] armed_abc"
  have p: "pendingRead armed_abc = Some ?pr" and d: "dev armed_abc = Some fake_device"
    and t: "timeoutId ?pr \<in> set (timers armed_abc)" and n: "nextId armed_abc = 1"
    and st: "settled armed_abc = []"
    by (simp_all add: armed_abc_def connected0_def)
  have ok: "sendReport fake_device 0xC2 (read_request 0x5A 2 0x07)"
    by (simp add: fake_device_def)
  have fed: "onInputReport 0xD0 [0x02, 0x0D, 0x0E] armed_abc = Inr ?s'"
    by (simp add: onInputReport_def armed_abc_def connected0_def chunk_of_def slice0_def
        log_line_def settle_def clearTimeout_def Let_def)
  have full: "pendingRead ?s' = None"
    and val: "settled ?s' = [(0, Fulfilled [0x0A, 0x0B, 0x0C, 0x0D, 0x0E])]"
    by (simp_all add: onInputReport_def armed_abc_def connected0_def chunk_of_def slice0_def
        log_line_def settle_def clearTimeout_def Let_def)
  note inst = i2cRead_single_in_flight [where s = armed_abc and pr = ?pr and d = fake_device
      and addr = "0x5A" and len = 2 and flag = "0x07" and inbound = "[]"
      and reportId = "0xD0" and dv = "[0x02, 0x0D, 0x0E]" and s' = ?s']
  have l: "(0::int) \<le> 2" "(2::int) \<le> 60" by simp_all
  have dn: "dev armed_abc \<noteq> None" using d by simp
  have 1: "i2cRead 0x5A 2 0x07 [] armed_abc = (armed_abc, Threw ConflictError)"
  proof (rule prod_eqI)
    show "fst (i2cRead 0x5A 2 0x07 [] armed_abc) = fst (armed_abc, Threw ConflictError)"
      using inst [THEN conjunct1, rule_format, OF p, THEN conjunct1] by simp
    show "snd (i2cRead 0x5A 2 0x07 [] armed_abc) = snd (armed_abc, Threw ConflictError)"
      using inst [THEN conjunct1, rule_format, OF p, THEN conjunct2, THEN conjunct2,
          rule_format, OF dn l]
      by simp
  qed
  have 2: "settled (timerFired 0 armed_abc) = [(0, Rejected TimeoutError)]
     \<and> snd (i2cRead_request 0x5A 2 0x07 (timerFired 0 armed_abc)) = Returned ()
     \<and> pendingRead (i2cRead_arm 2 (fst (i2cRead_request 0x5A 2 0x07 (timerFired 0 armed_abc))))
         = Some \<lparr>want = 2, buf = [], promise = 1, timeoutId = 1\<rparr>"
    using inst [THEN conjunct2, THEN conjunct1, rule_format, OF p d l ok t]
    by (simp add: Let_def n st)
  have 3: "snd (i2cRead_request 0x5A 2 0x07 ?s') = Returned ()
     \<and> pendingRead (i2cRead_arm 2 (fst (i2cRead_request 0x5A 2 0x07 ?s')))
         = Some \<lparr>want = 2, buf = [], promise = 1, timeoutId = 1\<rparr>"
    using inst [THEN conjunct2, THEN conjunct2, rule_format, OF p d l ok fed full]
    by (simp add: n)
  from 1 2 3 val show ?thesis by simp
qed

section \<open>Pending read: settlements over schedules\<close>

text \<open>
  In every schedule, overlapping calls included, no promise is settled twice: the
  pending read is set to null before its promise is resolved or rejected, and every
  new pending read gets a fresh promise.
\<close>

lemma step_ids_fresh: "ids_fresh s \<Longrightarrow> ids_fresh (step e s)"
proof (cases e)
  case (ReadRequest a l f)
  then show "ids_fresh s \<Longrightarrow> ?thesis"
    by (auto simp: ids_fresh_def settled_ids_def i2cRead_request_def log_line_def Let_def
        split: option.splits)
next
  case (ReadArm l)
  then show "ids_fresh s \<Longrightarrow> ?thesis"
    by (auto simp: ids_fresh_def settled_ids_def i2cRead_arm_def Let_def list_all_iff
        split: option.splits)
next
  case (InputReport r dv)
  then show "ids_fresh s \<Longrightarrow> ?thesis"
    by (auto simp: ids_fresh_def settled_ids_def onInputReport_def log_line_def settle_def
        clearTimeout_def Let_def list_all_iff split: option.splits if_splits)
next
  case (TimerFires t)
  then show "ids_fresh s \<Longrightarrow> ?thesis"
    by (auto simp: ids_fresh_def settled_ids_def timerFired_def clearPendingRead_def settle_def
        clearTimeout_def Let_def list_all_iff split: option.splits if_splits)
next
  case Disconnect
  then show "ids_fresh s \<Longrightarrow> ?thesis"
    by (auto simp: ids_fresh_def settled_ids_def disconnectFT260_def clearPendingRead_def
        settle_def clearTimeout_def log_line_def Let_def list_all_iff
        split: option.splits if_splits)
next
  case (Write a b f)
  then show "ids_fresh s \<Longrightarrow> ?thesis"
    by (auto simp: ids_fresh_def settled_ids_def i2cWrite_def log_line_def Let_def
        split: option.splits)
qed

lemma run_ids_fresh: "ids_fresh s \<Longrightarrow> ids_fresh (run es s)"
  by (induction es arbitrary: s) (simp_all add: step_ids_fresh)

lemma settled_at_most_once: "distinct (settled_ids (run es connected0))"
proof -
  have "ids_fresh connected0"
    by (simp add: ids_fresh_def settled_ids_def connected0_def)
  then have "ids_fresh (run es connected0)" by (rule run_ids_fresh)
  then show ?thesis by (simp add: ids_fresh_def)
qed

text \<open>
  A promise that is neither settled nor pending stays so: only the promise of the
  pending read is ever resolved or rejected.
\<close>

lemma step_lost: "lost p s \<Longrightarrow> lost p (step e s)"
proof (cases e)
  case (ReadRequest a l f)
  then show "lost p s \<Longrightarrow> ?thesis"
    by (auto simp: lost_def settled_ids_def i2cRead_request_def log_line_def Let_def
        split: option.splits)
next
  case (ReadArm l)
  then show "lost p s \<Longrightarrow> ?thesis"
    by (auto simp: lost_def settled_ids_def i2cRead_arm_def Let_def split: option.splits)
next
  case (InputReport r dv)
  then show "lost p s \<Longrightarrow> ?thesis"
    by (auto simp: lost_def settled_ids_def onInputReport_def log_line_def settle_def
        clearTimeout_def Let_def split: option.splits if_splits)
next
  case (TimerFires t)
  then show "lost p s \<Longrightarrow> ?thesis"
    by (auto simp: lost_def settled_ids_def timerFired_def clearPendingRead_def settle_def
        clearTimeout_def Let_def split: option.splits if_splits)
next
  case Disconnect
  then show "lost p s \<Longrightarrow> ?thesis"
    by (auto simp: lost_def settled_ids_def disconnectFT260_def clearPendingRead_def
        settle_def clearTimeout_def log_line_def Let_def split: option.splits if_splits)
next
  case (Write a b f)
  then show "lost p s \<Longrightarrow> ?thesis"
    by (auto simp: lost_def settled_ids_def i2cWrite_def log_line_def Let_def
        split: option.splits)
qed

lemma run_lost: "lost p s \<Longrightarrow> lost p (run es s)"
  by (induction es arbitrary: s) (simp_all add: step_lost)

text \<open>
  After an input report has fulfilled the pending read, its timer is cleared, and the
  timer callback would change nothing even if it ran.
\<close>

lemma expiry_after_fulfilment:
  "pendingRead s = Some pr \<Longrightarrow> onInputReport reportId dv s = Inr s' \<Longrightarrow>
   pendingRead s' = None \<Longrightarrow>
     timerFired (timeoutId pr) s' = s' \<and> clearPendingRead (Some TimeoutError) s' = s'"
  by (auto simp: onInputReport_def timerFired_def clearPendingRead_def settle_def
      clearTimeout_def log_line_def Let_def split: if_splits)

text \<open>
  C2. The promise of every pending read should be settled exactly once. The program
  misses this for two calls of \<open>i2cRead\<close> that overlap: each passes the check
  \<open>if (pendingRead)\<close> and awaits its send before the other stores its pending read.
  The second call then overwrites the pending read of the first. The timer of the
  first call rejects the promise of the second, the timer of the second has been
  cleared, and the promise of the first call is settled in no continuation of the
  schedule.
\<close>

theorem overlapping_reads_lose_a_promise:
  "(let sA = step (ReadRequest 0x5A 2 0x07) connected0;
        sB = step (ReadRequest 0x5A 2 0x07) sA;
        s1 = step (ReadArm 2) sB;
        s2 = step (ReadArm 2) s1;
        s3 = step (TimerFires 0) s2;
        s4 = step (TimerFires 1) s3
    in snd (i2cRead_request 0x5A 2 0x07 connected0) = Returned ()
     \<and> snd (i2cRead_request 0x5A 2 0x07 sA) = Returned ()
     \<and> pendingRead s1 = Some \<lparr>want = 2, buf = [], promise = 0, timeoutId = 0\<rparr>
     \<and> pendingRead s2 = Some \<lparr>want = 2, buf = [], promise = 1, timeoutId = 1\<rparr>
     \<and> settled s2 = []
     \<and> timers s2 = [0, 1]
     \<and> pendingRead s3 = None
     \<and> settled s3 = [(1, Rejected TimeoutError)]
     \<and> s4 = s3
     \<and> timers s4 = []
     \<and> (\<forall>es. 0 \<notin> set (settled_ids (run es s4))))"
proof -
  define sA where "sA = step (ReadRequest 0x5A 2 0x07) connected0"
  define sB where "sB = step (ReadRequest 0x5A 2 0x07) sA"
  define s1 where "s1 = step (ReadArm 2) sB"
  define s2 where "s2 = step (ReadArm 2) s1"
  define s3 where "s3 = step (TimerFires 0) s2"
  define s4 where "s4 = step (TimerFires 1) s3"
  have a: "sA = connected0\<lparr>logs := [LogOutReadReq 0xC2 0x5A 0x07 2],
                           sent := [(0xC2, [0x5A, 0x07, 0x02, 0x00])]\<rparr>"
    and ra: "snd (i2cRead_request 0x5A 2 0x07 connected0) = Returned ()"
    by (simp_all add: sA_def i2cRead_request_def connected0_def fake_device_def read_request_eq
        FT260_RD_DATA_MAX_def FT260_I2C_READ_REQ_def log_line_def Let_def)
  have b: "sB = connected0\<lparr>logs := [LogOutReadReq 0xC2 0x5A 0x07 2, LogOutReadReq 0xC2 0x5A 0x07 2],
                           sent := [(0xC2, [0x5A, 0x07, 0x02, 0x00]), (0xC2, [0x5A, 0x07, 0x02, 0x00])]\<rparr>"
    and rb: "snd (i2cRead_request 0x5A 2 0x07 sA) = Returned ()"
    by (simp_all add: sB_def a i2cRead_request_def connected0_def fake_device_def read_request_eq
        FT260_RD_DATA_MAX_def FT260_I2C_READ_REQ_def log_line_def Let_def)
  have 1: "s1 = sB\<lparr>nextId := 1, timers := [0],
                    pendingRead := Some \<lparr>want = 2, buf = [], promise = 0, timeoutId = 0\<rparr>\<rparr>"
    by (simp add: s1_def b i2cRead_arm_def connected0_def Let_def)
  have 2: "s2 = sB\<lparr>nextId := 2, timers := [0, 1],
                    pendingRead := Some \<lparr>want = 2, buf = [], promise = 1, timeoutId = 1\<rparr>\<rparr>"
    by (simp add: s2_def 1 b i2cRead_arm_def connected0_def Let_def)
  have 3: "s3 = sB\<lparr>nextId := 2, timers := [], pendingRead := None,
                    settled := [(1, Rejected TimeoutError)]\<rparr>"
    by (simp add: s3_def 2 b timerFired_def clearPendingRead_def clearTimeout_def settle_def
        connected0_def Let_def)
  have 4: "s4 = s3"
    by (simp add: s4_def 3 timerFired_def)
  have "lost 0 s4"
    by (simp add: 4 3 b lost_def settled_ids_def connected0_def)
  then have never: "\<forall>es. 0 \<notin> set (settled_ids (run es s4))"
    using run_lost [of 0 s4] by (simp add: lost_def)
  have "snd (i2cRead_request 0x5A 2 0x07 connected0) = Returned ()
     \<and> snd (i2cRead_request 0x5A 2 0x07 sA) = Returned ()
     \<and> pendingRead s1 = Some \<lparr>want = 2, buf = [], promise = 0, timeoutId = 0\<rparr>
     \<and> pendingRead s2 = Some \<lparr>want = 2, buf = [], promise = 1, timeoutId = 1\<rparr>
     \<and> settled s2 = []
     \<and> timers s2 = [0, 1]
     \<and> pendingRead s3 = None
     \<and> settled s3 = [(1, Rejected TimeoutError)]
     \<and> s4 = s3
     \<and> timers s4 = []
     \<and> (\<forall>es. 0 \<notin> set (settled_ids (run es s4)))"
    using ra rb never by (simp add: 1 2 3 4 b connected0_def)
  then show ?thesis
    unfolding sA_def sB_def s1_def s2_def s3_def s4_def Let_def .
qed

section \<open>PMBus read word\<close>

lemma onInputReport_logs:
  "onInputReport reportId dv s = Inr s' \<Longrightarrow>
     logs s' = logs s @ [LogIn reportId (uint (hd dv)) (chunk_of dv)]"
  by (auto simp: onInputReport_def Let_def log_line_def settle_def clearTimeout_def
      split: if_splits option.splits)

lemma deliver_logs: "logs (deliver rs s) = logs s @ in_logs rs"
proof (induction rs arbitrary: s)
  case Nil
  then show ?case by simp
next
  case (Cons r rs)
  obtain reportId dv where r: "r = (reportId, dv)" by (cases r)
  show ?case
  proof (cases "onInputReport reportId dv s")
    case (Inl e)
    then have "dv = []" by (auto simp: onInputReport_def Let_def split: if_splits option.splits)
    then show ?thesis using Cons.IH [of s] r Inl by simp
  next
    case (Inr s1)
    then have "dv \<noteq> []" by (auto simp: onInputReport_def)
    then show ?thesis
      using Cons.IH [of s1] r Inr onInputReport_logs [OF Inr] by simp
  qed
qed

lemma deliver_idle:
  "pendingRead s = None \<Longrightarrow>
     pendingRead (deliver rs s) = None \<and> settled (deliver rs s) = settled s
     \<and> timers (deliver rs s) = timers s \<and> dev (deliver rs s) = dev s
     \<and> sent (deliver rs s) = sent s \<and> nextId (deliver rs s) = nextId s"
proof (induction rs arbitrary: s)
  case Nil
  then show ?case by simp
next
  case (Cons r rs)
  obtain reportId dv where r: "r = (reportId, dv)" by (cases r)
  show ?case
  proof (cases "dv = []")
    case True
    then show ?thesis using Cons r by (simp add: onInputReport_def)
  next
    case False
    let ?s1 = "log_line (LogIn reportId (uint (hd dv)) (chunk_of dv)) s"
    have n: "pendingRead ?s1 = None" using Cons.prems by (simp add: log_line_def)
    show ?thesis
      using Cons.IH [OF n] r False Cons.prems
      by (simp add: onInputReport_idle) (simp add: log_line_def)
  qed
qed

lemma deliver_fulfils:
  "pendingRead s = Some pr \<Longrightarrow> int (length (buf pr)) < want pr \<Longrightarrow>
   want pr \<le> int (length (buf pr) + length (chunks rs)) \<Longrightarrow>
     pendingRead (deliver rs s) = None
     \<and> settled (deliver rs s)
         = settled s @ [(promise pr, Fulfilled (take (nat (want pr)) (buf pr @ chunks rs)))]
     \<and> timers (deliver rs s) = removeAll (timeoutId pr) (timers s)
     \<and> dev (deliver rs s) = dev s \<and> sent (deliver rs s) = sent s
     \<and> nextId (deliver rs s) = nextId s"
proof (induction rs arbitrary: s pr)
  case Nil
  then show ?case by simp
next
  case (Cons r rs)
  obtain reportId dv where r: "r = (reportId, dv)" by (cases r)
  show ?case
  proof (cases "dv = []")
    case True
    then have "deliver (r # rs) s = deliver rs s" "chunks (r # rs) = chunks rs"
      using r by (simp_all add: onInputReport_def)
    then show ?thesis using Cons.IH [of s pr] Cons.prems by simp
  next
    case False
    have le: "int (length (buf pr)) \<le> want pr" using Cons.prems(2) by simp
    note step = onInputReport_armed [OF Cons.prems(1) le False, of reportId]
    let ?c = "chunk_of dv"
    have ch: "chunks (r # rs) = ?c @ chunks rs" using r False by simp
    show ?thesis
    proof (cases "want pr \<le> int (length (buf pr)) + int (length ?c)")
      case True
      let ?acc = "buf pr @ take (nat (want pr - int (length (buf pr)))) ?c"
      let ?s1 = "settle (promise pr) (Fulfilled ?acc)
                   (clearTimeout (timeoutId pr)
                     ((log_line (LogIn reportId (uint (hd dv)) ?c) s)\<lparr>pendingRead := None\<rparr>))"
      have s1: "onInputReport reportId dv s = Inr ?s1"
        using step True by (simp add: Let_def)
      have n: "pendingRead ?s1 = None" by (simp add: settle_def clearTimeout_def)
      have acc: "?acc = take (nat (want pr)) (buf pr @ chunks (r # rs))"
        using True le by (simp add: ch nat_diff_distrib')
      have d: "deliver (r # rs) s = deliver rs ?s1" using r s1 by simp
      show ?thesis
        unfolding d using deliver_idle [OF n, of rs] acc
        by (simp add: settle_def clearTimeout_def log_line_def)
    next
      case False
      let ?pr1 = "pr\<lparr>buf := buf pr @ ?c\<rparr>"
      let ?s1 = "(log_line (LogIn reportId (uint (hd dv)) ?c) s)\<lparr>pendingRead := Some ?pr1\<rparr>"
      have tk: "take (nat (want pr - int (length (buf pr)))) ?c = ?c"
        using False by simp
      have s1: "onInputReport reportId dv s = Inr ?s1"
        using step False by (simp add: Let_def tk)
      have d: "deliver (r # rs) s = deliver rs ?s1" using r s1 by simp
      have p1: "pendingRead ?s1 = Some ?pr1" by simp
      have l1: "int (length (buf ?pr1)) < want ?pr1" using False by simp
      have w1: "want ?pr1 \<le> int (length (buf ?pr1) + length (chunks rs))"
        using Cons.prems(3) by (simp add: ch)
      show ?thesis
        unfolding d using Cons.IH [OF p1 l1 w1]
        by (simp add: ch log_line_def)
    qed
  qed
qed

lemma map_of_append_fresh:
  "p \<notin> fst ` set xs \<Longrightarrow> map_of (xs @ [(p, v)]) p = Some v"
  by (induction xs) auto

lemma i2cWrite_command:
  "dev s = Some d \<Longrightarrow>
     i2cWrite addr [u8 (command AND 0xFF)] FT260_FLAG_START s
       = (s\<lparr>logs := logs s @ [LogOutWrite 0xD0 addr 0x02 1 [word_of_int command]],
             sent := sent s @ [(0xD0, [word_of_int (addr AND 0x7F), 0x02, 0x01, word_of_int command])]\<rparr>,
          if sendReport d 0xD0 [word_of_int (addr AND 0x7F), 0x02, 0x01, word_of_int command]
          then Returned () else Threw ChannelError)"
  by (simp add: i2cWrite_def write_payload_eq u8_and_ff FT260_WR_DATA_MAX_def FT260_FLAG_START_def
      i2cDataReportId_def FT260_I2C_REPORT_MIN_def log_line_def Let_def)

lemma i2cRead_fulfilled:
  assumes d: "dev s = Some d" and n: "pendingRead s = None"
    and f: "list_all (\<lambda>p. p < nextId s) (settled_ids s)"
    and l: "0 < len" "len \<le> 60"
    and ok: "sendReport d 0xC2 (read_request addr len flag)"
    and c: "len \<le> int (length (chunks inbound))"
  shows "snd (i2cRead addr len flag inbound s) = Returned (take (nat len) (chunks inbound))"
    and "sent (fst (i2cRead addr len flag inbound s)) = sent s @ [(0xC2, read_request addr len flag)]"
    and "pendingRead (fst (i2cRead addr len flag inbound s)) = None"
    and "settled (fst (i2cRead addr len flag inbound s))
           = settled s @ [(nextId s, Fulfilled (take (nat len) (chunks inbound)))]"
    and "dev (fst (i2cRead addr len flag inbound s)) = Some d"
    and "logs (fst (i2cRead addr len flag inbound s))
           = logs s @ [LogOutReadReq 0xC2 addr flag len] @ in_logs inbound"
proof -
  let ?s1 = "s\<lparr>logs := logs s @ [LogOutReadReq 0xC2 addr flag len],
               sent := sent s @ [(0xC2, read_request addr len flag)]\<rparr>"
  let ?pr = "\<lparr>want = len, buf = [], promise = nextId s, timeoutId = nextId s\<rparr>"
  let ?s2 = "i2cRead_arm len ?s1"
  let ?s3 = "deliver inbound ?s2"
  have l0: "0 \<le> len" using l by simp
  have rq: "i2cRead_request addr len flag s = (?s1, Returned ())"
    using ok by (simp add: i2cRead_request_idle [OF d n l0 l(2)])
  have p2: "pendingRead ?s2 = Some ?pr" by (simp add: i2cRead_arm_def Let_def)
  have b: "int (length (buf ?pr)) < want ?pr" using l by simp
  have w: "want ?pr \<le> int (length (buf ?pr) + length (chunks inbound))" using c by simp
  note dl = deliver_fulfils [OF p2 b w]
  have tm: "timers ?s3 = removeAll (nextId s) (timers s)"
    using dl by (simp add: i2cRead_arm_def Let_def)
  have tf: "timerFired (nextId s) ?s3 = ?s3"
    using tm by (simp add: timerFired_def)
  have st: "settled ?s3 = settled s @ [(nextId s, Fulfilled (take (nat len) (chunks inbound)))]"
    using dl by (simp add: i2cRead_arm_def Let_def)
  have fresh: "nextId s \<notin> fst ` set (settled s)"
    using f by (auto simp: list_all_iff settled_ids_def)
  have mo: "map_of (settled ?s3) (nextId s) = Some (Fulfilled (take (nat len) (chunks inbound)))"
    unfolding st by (rule map_of_append_fresh [OF fresh])
  have res: "i2cRead addr len flag inbound s = (?s3, Returned (take (nat len) (chunks inbound)))"
    by (simp add: i2cRead_def rq Let_def tf mo)
  show "snd (i2cRead addr len flag inbound s) = Returned (take (nat len) (chunks inbound))"
    by (simp add: res)
  show "sent (fst (i2cRead addr len flag inbound s)) = sent s @ [(0xC2, read_request addr len flag)]"
    using dl by (simp add: res i2cRead_arm_def Let_def)
  show "pendingRead (fst (i2cRead addr len flag inbound s)) = None"
    using dl by (simp add: res)
  show "settled (fst (i2cRead addr len flag inbound s))
           = settled s @ [(nextId s, Fulfilled (take (nat len) (chunks inbound)))]"
    using st by (simp add: res)
  show "dev (fst (i2cRead addr len flag inbound s)) = Some d"
    using dl d by (simp add: res i2cRead_arm_def Let_def)
  show "logs (fst (i2cRead addr len flag inbound s))
           = logs s @ [LogOutReadReq 0xC2 addr flag len] @ in_logs inbound"
    by (simp add: res deliver_logs i2cRead_arm_def Let_def)
qed

text \<open>
  C4. With a device open that takes both reports and answers the status query, no
  read pending, and input reports that carry at least two bytes, \<open>pmbusReadWord\<close>
  sends the one command byte with the Start flag 0x02, then the request for two bytes
  with the flag 0x07, then reads the status block, and returns the two bytes with the
  word \<open>raw[0] | (raw[1] << 8)\<close>, low byte first. The status block is arbitrary: a
  block with the NACK bits set does not make the call throw.
\<close>

theorem pmbusReadWord_exchange:
  assumes d: "dev s = Some d" and n: "pendingRead s = None"
    and f: "list_all (\<lambda>p. p < nextId s) (settled_ids s)"
    and wr: "sendReport d 0xD0 [word_of_int (addr AND 0x7F), 0x02, 0x01, word_of_int command]"
    and rd: "sendReport d 0xC2 [word_of_int (addr AND 0x7F), 0x07, 0x02, 0x00]"
    and sb: "receiveFeatureReport d 0xC0 = Some sb"
    and c: "chunks inbound = b0 # b1 # rest"
  shows "snd (pmbusReadWord addr command inbound s)
           = Returned \<lparr>raw = [b0, b1], word = uint b0 OR push_bit 8 (uint b1)\<rparr>
       \<and> uint b0 OR push_bit 8 (uint b1) = uint b0 + 256 * uint b1
       \<and> sent (fst (pmbusReadWord addr command inbound s))
           = sent s @ [(0xD0, [word_of_int (addr AND 0x7F), 0x02, 0x01, word_of_int command]),
                       (0xC2, [word_of_int (addr AND 0x7F), 0x07, 0x02, 0x00])]
       \<and> settled (fst (pmbusReadWord addr command inbound s))
           = settled s @ [(nextId s, Fulfilled [b0, b1])]
       \<and> pendingRead (fst (pmbusReadWord addr command inbound s)) = None
       \<and> logs (fst (pmbusReadWord addr command inbound s))
           = logs s
             @ [LogOutWrite 0xD0 addr 0x02 1 [word_of_int command], LogOutReadReq 0xC2 addr 0x07 2]
             @ in_logs inbound
             @ [LogStatusBytes sb,
                LogStatus (rawStatus (parseI2cStatus sb)) (speedKhz (parseI2cStatus sb))
                  (addrNack (parseI2cStatus sb)) (dataNack (parseI2cStatus sb))]
             @ (if addrNack (parseI2cStatus sb) then [LogNoDevice] else [])"
proof -
  let ?s1 = "s\<lparr>logs := logs s @ [LogOutWrite 0xD0 addr 0x02 1 [word_of_int command]],
               sent := sent s @ [(0xD0, [word_of_int (addr AND 0x7F), 0x02, 0x01, word_of_int command])]\<rparr>"
  have w1: "i2cWrite addr [u8 (command AND 0xFF)] FT260_FLAG_START s = (?s1, Returned ())"
    using wr by (simp add: i2cWrite_command [OF d])
  have d1: "dev ?s1 = Some d" and n1: "pendingRead ?s1 = None"
    and f1: "list_all (\<lambda>p. p < nextId ?s1) (settled_ids ?s1)"
    using d n f by (simp_all add: settled_ids_def)
  have rq: "read_request addr 2 FT260_FLAG_START_STOP_REPEATED
              = [word_of_int (addr AND 0x7F), 0x07, 0x02, 0x00]"
    by (simp add: read_request_eq FT260_FLAG_START_STOP_REPEATED_def)
  have ok: "sendReport d 0xC2 (read_request addr 2 FT260_FLAG_START_STOP_REPEATED)"
    using rd by (simp only: rq)
  have l: "(0::int) < 2" "(2::int) \<le> 60" by simp_all
  have c2: "(2::int) \<le> int (length (chunks inbound))" by (simp add: c)
  have tk: "take (nat 2) (chunks inbound) = [b0, b1]" by (simp add: c)
  note r = i2cRead_fulfilled [OF d1 n1 f1 l ok c2, unfolded tk rq]
  obtain s2 where r2: "i2cRead addr 2 FT260_FLAG_START_STOP_REPEATED inbound ?s1 = (s2, Returned [b0, b1])"
    using r(1) by (cases "i2cRead addr 2 FT260_FLAG_START_STOP_REPEATED inbound ?s1") simp
  have s2: "sent s2 = sent ?s1 @ [(0xC2, [word_of_int (addr AND 0x7F), 0x07, 0x02, 0x00])]"
    "pendingRead s2 = None" "settled s2 = settled ?s1 @ [(nextId ?s1, Fulfilled [b0, b1])]"
    "dev s2 = Some d"
    using r(2-5) by (simp_all add: r2)
  have lg: "logs s2 = logs ?s1 @ [LogOutReadReq 0xC2 addr 0x07 2] @ in_logs inbound"
    using r(6) unfolding r2 by (simp add: FT260_FLAG_START_STOP_REPEATED_def)
  have g: "getI2cStatus s2 = (log_line (LogStatusBytes sb) s2, Returned sb)"
    using s2(4) sb by (simp add: getI2cStatus_def FT260_I2C_STATUS_def)
  have wd: "at0 [b0, b1] 0 OR push_bit 8 (at0 [b0, b1] 1) = uint b0 OR push_bit 8 (uint b1)"
    by (simp add: at0_def)
  have res: "pmbusReadWord addr command inbound s
      = (let st = parseI2cStatus sb;
             s4 = log_line (LogStatus (rawStatus st) (speedKhz st) (addrNack st) (dataNack st))
                    (log_line (LogStatusBytes sb) s2)
         in (if addrNack st then log_line LogNoDevice s4 else s4,
             Returned \<lparr>raw = [b0, b1], word = uint b0 OR push_bit 8 (uint b1)\<rparr>))"
    unfolding pmbusReadWord_def w1 by (simp only: prod.case completion.case r2 g wd Let_def)
  have le: "uint b0 OR push_bit 8 (uint b1) = uint b0 + 256 * uint b1"
    using or_push_bit8 [of "uint b0" "uint b1"] uint_lt2p [of b0]
    by (simp add: or.commute)
  show ?thesis
    using s2 lg le
    by (simp add: res Let_def log_line_def)
qed

theorem pmbusReadWord_exchange_witness:
  "snd (pmbusReadWord 0x5A 0x8B [(0xD0, [0x02, 0x34, 0x12])] connected0)
     = Returned \<lparr>raw = [0x34, 0x12], word = 0x1234\<rparr>
   \<and> sent (fst (pmbusReadWord 0x5A 0x8B [(0xD0, [0x02, 0x34, 0x12])] connected0))
       = [(0xD0, [0x5A, 0x02, 0x01, 0x8B]), (0xC2, [0x5A, 0x07, 0x02, 0x00])]
   \<and> logs (fst (pmbusReadWord 0x5A 0x8B [(0xD0, [0x02, 0x34, 0x12])] connected0))
       = [LogOutWrite 0xD0 0x5A 0x02 1 [0x8B], LogOutReadReq 0xC2 0x5A 0x07 2,
          LogIn 0xD0 2 [0x34, 0x12],
          LogStatusBytes [0xC0, 0x24, 0x90, 0x01], LogStatus 0x24 400 True False, LogNoDevice]
   \<and> addrNack (parseI2cStatus (the (receiveFeatureReport fake_device 0xC0)))"
proof -
  have c: "chunks [(0xD0, [0x02, 0x34, 0x12])] = 0x34 # 0x12 # []"
    by (simp add: chunk_of_def)
  have "snd (pmbusReadWord 0x5A 0x8B [(0xD0, [0x02, 0x34, 0x12])] connected0)
          = Returned \<lparr>raw = [0x34, 0x12], word = uint (0x34 :: byte) OR push_bit 8 (uint (0x12 :: byte))\<rparr>
       \<and> uint (0x34 :: byte) OR push_bit 8 (uint (0x12 :: byte)) = uint (0x34 :: byte) + 256 * uint (0x12 :: byte)
       \<and> sent (fst (pmbusReadWord 0x5A 0x8B [(0xD0, [0x02, 0x34, 0x12])] connected0))
           = sent connected0 @ [(0xD0, [word_of_int (0x5A AND 0x7F), 0x02, 0x01, word_of_int 0x8B]),
                       (0xC2, [word_of_int (0x5A AND 0x7F), 0x07, 0x02, 0x00])]
       \<and> settled (fst (pmbusReadWord 0x5A 0x8B [(0xD0, [0x02, 0x34, 0x12])] connected0))
           = settled connected0 @ [(nextId connected0, Fulfilled [0x34, 0x12])]
       \<and> pendingRead (fst (pmbusReadWord 0x5A 0x8B [(0xD0, [0x02, 0x34, 0x12])] connected0)) = None
       \<and> logs (fst (pmbusReadWord 0x5A 0x8B [(0xD0, [0x02, 0x34, 0x12])] connected0))
           = logs connected0
             @ [LogOutWrite 0xD0 0x5A 0x02 1 [word_of_int 0x8B], LogOutReadReq 0xC2 0x5A 0x07 2]
             @ in_logs [(0xD0, [0x02, 0x34, 0x12])]
             @ [LogStatusBytes [0xC0, 0x24, 0x90, 0x01],
                LogStatus (rawStatus (parseI2cStatus [0xC0, 0x24, 0x90, 0x01]))
                  (speedKhz (parseI2cStatus [0xC0, 0x24, 0x90, 0x01]))
                  (addrNack (parseI2cStatus [0xC0, 0x24, 0x90, 0x01]))
                  (dataNack (parseI2cStatus [0xC0, 0x24, 0x90, 0x01]))]
             @ (if addrNack (parseI2cStatus [0xC0, 0x24, 0x90, 0x01]) then [LogNoDevice] else [])"
    by (rule pmbusReadWord_exchange [where d = fake_device, OF _ _ _ _ _ _ c])
      (simp_all add: connected0_def fake_device_def settled_ids_def)
  moreover have "addrNack (parseI2cStatus (the (receiveFeatureReport fake_device 0xC0)))"
    by (simp add: fake_device_def parseI2cStatus_def at0_def Let_def)
  moreover have "parseI2cStatus [0xC0, 0x24, 0x90, 0x01]
      = \<lparr>rawStatus = 0x24, speedKhz = 400, controllerBusy = False, error = False,
         addrNack = True, dataNack = False, arbLost = False, idle = True, busBusy = False\<rparr>"
    by (simp add: parseI2cStatus_def at0_def Let_def)
  ultimately show ?thesis
    by (simp add: connected0_def chunk_of_def)
qed

end
